theory Spec2Isabelle
  imports Main "HOL-Library.Word" "HOL-Library.Multiset"
begin

section \<open>Intersection of regulatory domains (intersect.c)\<close>

text \<open>
  A shallow embedding of \<^verbatim>\<open>intersect.c\<close>: the rule intersection
  \<^verbatim>\<open>reg_rules_intersect\<close>, the two-pass domain intersection
  \<^verbatim>\<open>regdom_intersect\<close>, on rule arrays and once more on a store of blocks,
  and the reduction loop of \<^verbatim>\<open>main\<close>.

  The header \<^verbatim>\<open>reglib.h\<close> is not part of the sources at hand. What the program
  takes from it is treated as follows.
  \<^item> The structures are records with the fields that \<^verbatim>\<open>intersect.c\<close> reads and
    writes. Frequencies, bandwidth, flags and rule counts are 32-bit unsigned
    (\<^verbatim>\<open>freq_diff\<close> is declared \<^verbatim>\<open>__u32\<close>). The type of the two power limits is
    not visible, so it is a type parameter \<open>'p\<close>: any linearly ordered type with
    a zero (what \<^verbatim>\<open>memset\<close> leaves behind), which covers unsigned and signed
    machine integers.
  \<^item> The macros \<^verbatim>\<open>max\<close> and \<^verbatim>\<open>min\<close> are the larger and the smaller of their
    two arguments.
  \<^item> \<^verbatim>\<open>is_valid_reg_rule\<close> is a parameter \<open>is_valid\<close> of the embedding; a model
    of it that follows the specification is given separately.
\<close>

unbundle bit_operations_syntax

subsection \<open>Data\<close>

type_synonym u32 = "32 word"

record ieee80211_freq_range =
  start_freq_khz :: u32
  end_freq_khz :: u32
  max_bandwidth_khz :: u32

record 'p ieee80211_power_rule =
  max_antenna_gain :: 'p
  max_eirp :: 'p

record 'p ieee80211_reg_rule =
  freq_range :: ieee80211_freq_range
  power_rule :: "'p ieee80211_power_rule"
  flags :: u32

text \<open>
  A domain is a rule count, a two-character country code and the array of rules
  that follows the header in the same block of storage.
\<close>

record 'p ieee80211_regdomain =
  n_reg_rules :: u32
  alpha2 :: string
  reg_rules :: "'p ieee80211_reg_rule list"

text \<open>The block of a domain holds exactly the rules that its count announces.\<close>

definition wf_regdomain :: "'p ieee80211_regdomain \<Rightarrow> bool" where
  "wf_regdomain rd \<longleftrightarrow> length (reg_rules rd) = unat (n_reg_rules rd)"

definition EINVAL :: int where
  "EINVAL = 22"

subsection \<open>reg\_rules\_intersect\<close>

text \<open>
  The function stores the six fields of the candidate into \<^verbatim>\<open>*intersected_rule\<close>
  whether or not the candidate is valid, and returns \<open>0\<close> or \<open>- EINVAL\<close>. The
  embedding returns both: the return value and the rule that was stored. Both
  callers pass a target that is neither \<^verbatim>\<open>rule1\<close> nor \<^verbatim>\<open>rule2\<close>.
\<close>

definition reg_rules_intersect ::
  "('p::linorder ieee80211_reg_rule \<Rightarrow> bool) \<Rightarrow> 'p ieee80211_reg_rule \<Rightarrow>
     'p ieee80211_reg_rule \<Rightarrow> int \<times> 'p ieee80211_reg_rule" where
  "reg_rules_intersect is_valid rule1 rule2 =
    (let freq_range1 = freq_range rule1;
         freq_range2 = freq_range rule2;
         power_rule1 = power_rule rule1;
         power_rule2 = power_rule rule2;
         start = max (start_freq_khz freq_range1) (start_freq_khz freq_range2);
         end = min (end_freq_khz freq_range1) (end_freq_khz freq_range2);
         bandwidth = min (max_bandwidth_khz freq_range1) (max_bandwidth_khz freq_range2);
         freq_diff = end - start;
         bandwidth = (if bandwidth > freq_diff then freq_diff else bandwidth);
         intersected_rule =
           \<lparr> freq_range = \<lparr> start_freq_khz = start, end_freq_khz = end,
                             max_bandwidth_khz = bandwidth \<rparr>,
             power_rule = \<lparr> max_antenna_gain =
                               min (max_antenna_gain power_rule1) (max_antenna_gain power_rule2),
                             max_eirp = min (max_eirp power_rule1) (max_eirp power_rule2) \<rparr>,
             flags = flags rule1 OR flags rule2 \<rparr>
     in if \<not> is_valid intersected_rule then (- EINVAL, intersected_rule)
        else (0, intersected_rule))"

text \<open>
  Modelled from the spec: \<^verbatim>\<open>is_valid_reg_rule\<close>, which \<^verbatim>\<open>intersect.c\<close> calls and
  does not define. The specification makes a rule valid only if
  \<open>start \<le> end\<close>, the bandwidth fits into \<open>end - start\<close>, and an external semantic
  check, opaque to the core, accepts the rule. That check is the parameter
  \<open>ext\<close>.
\<close>

definition is_valid_reg_rule ::
  "('p ieee80211_reg_rule \<Rightarrow> bool) \<Rightarrow> 'p ieee80211_reg_rule \<Rightarrow> bool" where
  "is_valid_reg_rule ext rule =
    (let fr = freq_range rule
     in start_freq_khz fr \<le> end_freq_khz fr \<and>
        max_bandwidth_khz fr \<le> end_freq_khz fr - start_freq_khz fr \<and>
        ext rule)"

subsection \<open>regdom\_intersect\<close>

text \<open>
  The five ways in which \<^verbatim>\<open>regdom_intersect\<close> does not hand a domain back. The
  first four are the \<^verbatim>\<open>return NULL\<close> statements of the function, in their order.
  The last is not a return: it stands for a store through
  \<^verbatim>\<open>&rd->reg_rules[rule_idx]\<close> with \<^verbatim>\<open>rule_idx\<close> outside the block that
  \<^verbatim>\<open>malloc\<close> returned, after which the behaviour of the C program is undefined.
\<close>

datatype regdom_error =
    Null_argument
  | Num_rules_zero
  | No_memory
  | Count_mismatch
  | Heap_overflow

text \<open>What \<^verbatim>\<open>memset(..., 0, ...)\<close> leaves in a rule.\<close>

definition zero_rule :: "'p::zero ieee80211_reg_rule" where
  "zero_rule =
     \<lparr> freq_range = \<lparr> start_freq_khz = 0, end_freq_khz = 0, max_bandwidth_khz = 0 \<rparr>,
       power_rule = \<lparr> max_antenna_gain = 0, max_eirp = 0 \<rparr>,
       flags = 0 \<rparr>"

text \<open>
  The body of the counting loops: the candidate goes to the dummy rule on the
  stack, only the return value is used.
\<close>

definition count_pair ::
  "('p::linorder ieee80211_reg_rule \<Rightarrow> bool) \<Rightarrow> 'p ieee80211_reg_rule \<Rightarrow>
     'p ieee80211_reg_rule \<Rightarrow> u32 \<Rightarrow> u32" where
  "count_pair is_valid rule1 rule2 num_rules =
     (if fst (reg_rules_intersect is_valid rule1 rule2) = 0 then num_rules + 1 else num_rules)"

definition count_rules ::
  "('p::linorder ieee80211_reg_rule \<Rightarrow> bool) \<Rightarrow> 'p ieee80211_regdomain \<Rightarrow>
     'p ieee80211_regdomain \<Rightarrow> u32" where
  "count_rules is_valid rd1 rd2 =
     fold (\<lambda>x. fold (\<lambda>y. count_pair is_valid (reg_rules rd1 ! x) (reg_rules rd2 ! y))
                    [0..<unat (n_reg_rules rd2)])
          [0..<unat (n_reg_rules rd1)] 0"

text \<open>
  The body of the filling loops. The state is the rule array of the new block
  and \<^verbatim>\<open>rule_idx\<close>. The candidate is stored at \<^verbatim>\<open>rule_idx\<close> first; only a
  valid candidate advances \<^verbatim>\<open>rule_idx\<close>, so a rejected candidate stays in its
  slot until the next pair overwrites it.
\<close>

definition fill_pair ::
  "('p::linorder ieee80211_reg_rule \<Rightarrow> bool) \<Rightarrow> 'p ieee80211_reg_rule \<Rightarrow>
     'p ieee80211_reg_rule \<Rightarrow> regdom_error + 'p ieee80211_reg_rule list \<times> u32 \<Rightarrow>
     regdom_error + 'p ieee80211_reg_rule list \<times> u32" where
  "fill_pair is_valid rule1 rule2 st =
     (case st of
        Inl e \<Rightarrow> Inl e
      | Inr (slots, rule_idx) \<Rightarrow>
          if unat rule_idx < length slots then
            (let (r, intersected_rule) = reg_rules_intersect is_valid rule1 rule2;
                 slots = slots[unat rule_idx := intersected_rule]
             in if r \<noteq> 0 then Inr (slots, rule_idx) else Inr (slots, rule_idx + 1))
          else Inl Heap_overflow)"

definition fill_rules ::
  "('p::linorder ieee80211_reg_rule \<Rightarrow> bool) \<Rightarrow> 'p ieee80211_regdomain \<Rightarrow>
     'p ieee80211_regdomain \<Rightarrow> 'p ieee80211_reg_rule list \<Rightarrow>
     regdom_error + 'p ieee80211_reg_rule list \<times> u32" where
  "fill_rules is_valid rd1 rd2 slots =
     fold (\<lambda>x. fold (\<lambda>y. fill_pair is_valid (reg_rules rd1 ! x) (reg_rules rd2 ! y))
                    [0..<unat (n_reg_rules rd2)])
          [0..<unat (n_reg_rules rd1)] (Inr (slots, 0))"

text \<open>
  The arguments are pointers: \<open>None\<close> is \<^verbatim>\<open>NULL\<close>. \<open>mem\<close> tells whether
  \<^verbatim>\<open>malloc\<close> returns a block; the block then holds \<^verbatim>\<open>num_rules\<close> rules, all
  zero after the \<^verbatim>\<open>memset\<close>. Sizes in bytes are not modelled.
\<close>

definition regdom_intersect ::
  "('p::{linorder,zero} ieee80211_reg_rule \<Rightarrow> bool) \<Rightarrow> bool \<Rightarrow>
     'p ieee80211_regdomain option \<Rightarrow> 'p ieee80211_regdomain option \<Rightarrow>
     regdom_error + 'p ieee80211_regdomain" where
  "regdom_intersect is_valid mem rd1 rd2 =
     (case (rd1, rd2) of
        (Some rd1, Some rd2) \<Rightarrow>
          (let num_rules = count_rules is_valid rd1 rd2
           in if num_rules = 0 then Inl Num_rules_zero
              else if \<not> mem then Inl No_memory
              else
                (let rd = \<lparr> n_reg_rules = 0, alpha2 = [CHR 0x00, CHR 0x00],
                            reg_rules = replicate (unat num_rules) zero_rule \<rparr>
                 in case fill_rules is_valid rd1 rd2 (reg_rules rd) of
                      Inl e \<Rightarrow> Inl e
                    | Inr (slots, rule_idx) \<Rightarrow>
                        if rule_idx \<noteq> num_rules then Inl Count_mismatch
                        else Inr (rd \<lparr> reg_rules := slots, n_reg_rules := num_rules,
                                       alpha2 := (alpha2 rd)[0 := CHR ''9'', 1 := CHR ''9''] \<rparr>)))
      | _ \<Rightarrow> Inl Null_argument)"

subsection \<open>regdom\_intersect on a store\<close>

text \<open>
  The same function with its arguments and its result as pointers into a
  store, for the statements about what a call reads and writes. The store maps
  the address of a block to the domain held there. \<^verbatim>\<open>malloc\<close> hands out
  addresses that were never used before, \<^verbatim>\<open>free\<close> removes the block.
\<close>

record 'p store =
  blocks :: "nat \<rightharpoonup> 'p ieee80211_regdomain"
  next_block :: nat



text \<open>
  The loads \<^verbatim>\<open>p->n_reg_rules\<close> and \<^verbatim>\<open>p->reg_rules[x]\<close> and the store to
  \<^verbatim>\<open>p->reg_rules[x]\<close>. Each is \<open>None\<close> when \<open>p\<close> is not the address of a block
  or \<open>x\<close> lies outside the rule array of the block.
\<close>

definition load_count :: "'p store \<Rightarrow> nat \<Rightarrow> u32 option" where
  "load_count s p = (case blocks s p of None \<Rightarrow> None | Some rd \<Rightarrow> Some (n_reg_rules rd))"

definition load_rule :: "'p store \<Rightarrow> nat \<Rightarrow> u32 \<Rightarrow> 'p ieee80211_reg_rule option" where
  "load_rule s p x =
     (case blocks s p of
        None \<Rightarrow> None
      | Some rd \<Rightarrow>
          if unat x < length (reg_rules rd) then Some (reg_rules rd ! unat x) else None)"

definition store_rule ::
  "'p store \<Rightarrow> nat \<Rightarrow> u32 \<Rightarrow> 'p ieee80211_reg_rule \<Rightarrow> 'p store option" where
  "store_rule s p x rule =
     (case blocks s p of
        None \<Rightarrow> None
      | Some rd \<Rightarrow>
          if unat x < length (reg_rules rd)
          then Some (s \<lparr> blocks := (blocks s)(p \<mapsto> rd \<lparr> reg_rules := (reg_rules rd)[unat x := rule] \<rparr>) \<rparr>)
          else None)"

text \<open>
  The state of the filling loops: the store and \<^verbatim>\<open>rule_idx\<close>, or the reason
  why the loops stopped. \<open>Wild_load\<close> is a load outside every block.
  \<open>Wild_store\<close> is the store through \<^verbatim>\<open>&rd->reg_rules[rule_idx]\<close> outside the
  new block; it carries the store as it was when that happened.
\<close>

datatype 'p filling =
    Filling "'p store" u32
  | Wild_load
  | Wild_store "'p store"

text \<open>
  The body of the filling loops, lines 137 to 146: \<^verbatim>\<open>reg_rules_intersect\<close>
  loads the two rules through \<^verbatim>\<open>rule1\<close> and \<^verbatim>\<open>rule2\<close> and stores the candidate
  through \<^verbatim>\<open>intersected_rule\<close>, the address of slot \<^verbatim>\<open>rule_idx\<close> of the new
  block \<open>rd\<close>. The loads are taken from the store as it is when the call is
  made, and the candidate is stored after them; this is the effect of the C
  code, which stores some fields before it loads others, whenever the slot is
  not part of a rule that the call loads.
\<close>

definition fill_pair_store ::
  "('p::linorder ieee80211_reg_rule \<Rightarrow> bool) \<Rightarrow> nat \<Rightarrow> nat \<Rightarrow> nat \<Rightarrow> u32 \<Rightarrow> u32 \<Rightarrow>
     'p store \<Rightarrow> u32 \<Rightarrow> 'p filling" where
  "fill_pair_store is_valid rd1 rd2 rd x y s rule_idx =
     (case (load_rule s rd1 x, load_rule s rd2 y) of
        (Some rule1, Some rule2) \<Rightarrow>
          (let (r, intersected_rule) = reg_rules_intersect is_valid rule1 rule2
           in case store_rule s rd rule_idx intersected_rule of
                None \<Rightarrow> Wild_store s
              | Some s \<Rightarrow> if r \<noteq> 0 then Filling s rule_idx else Filling s (rule_idx + 1))
      | _ \<Rightarrow> Wild_load)"

text \<open>
  The inner loop from \<open>y\<close> on and the outer loop from \<open>x\<close> on. The loop tests
  \<^verbatim>\<open>y < rd2->n_reg_rules\<close> and \<^verbatim>\<open>x < rd1->n_reg_rules\<close> load the count from
  the store at every turn. The loops end because a 32-bit index below the
  count can be incremented without wrapping around.
\<close>

function fill_loop_y ::
  "('p::linorder ieee80211_reg_rule \<Rightarrow> bool) \<Rightarrow> nat \<Rightarrow> nat \<Rightarrow> nat \<Rightarrow> u32 \<Rightarrow> u32 \<Rightarrow>
     'p filling \<Rightarrow> 'p filling" where
  "fill_loop_y is_valid rd1 rd2 rd x y st =
     (case st of
        Filling s rule_idx \<Rightarrow>
          (case load_count s rd2 of
             None \<Rightarrow> Wild_load
           | Some n \<Rightarrow>
               if y < n
               then fill_loop_y is_valid rd1 rd2 rd x (y + 1)
                      (fill_pair_store is_valid rd1 rd2 rd x y s rule_idx)
               else st)
      | _ \<Rightarrow> st)"
  by pat_completeness auto
termination
proof (relation "measure (\<lambda>(is_valid, rd1, rd2, rd, x, y, st). 2 ^ 32 - unat y)", goal_cases)
  case 1
  show ?case by simp
next
  case (2 is_valid rd1 rd2 rd x y st s rule_idx n)
  have "unat y < unat n"
    using 2 by (simp add: word_less_nat_alt)
  moreover have "unat n < 2 ^ 32"
    using unsigned_less [of n, where 'a = nat] by simp
  ultimately show ?case
    by (simp add: unat_word_ariths)
qed

function fill_loop_x ::
  "('p::linorder ieee80211_reg_rule \<Rightarrow> bool) \<Rightarrow> nat \<Rightarrow> nat \<Rightarrow> nat \<Rightarrow> u32 \<Rightarrow>
     'p filling \<Rightarrow> 'p filling" where
  "fill_loop_x is_valid rd1 rd2 rd x st =
     (case st of
        Filling s rule_idx \<Rightarrow>
          (case load_count s rd1 of
             None \<Rightarrow> Wild_load
           | Some n \<Rightarrow>
               if x < n
               then fill_loop_x is_valid rd1 rd2 rd (x + 1)
                      (fill_loop_y is_valid rd1 rd2 rd x 0 st)
               else st)
      | _ \<Rightarrow> st)"
  by pat_completeness auto
termination
proof (relation "measure (\<lambda>(is_valid, rd1, rd2, rd, x, st). 2 ^ 32 - unat x)", goal_cases)
  case 1
  show ?case by simp
next
  case (2 is_valid rd1 rd2 rd x st s rule_idx n)
  have "unat x < unat n"
    using 2 by (simp add: word_less_nat_alt)
  moreover have "unat n < 2 ^ 32"
    using unsigned_less [of n, where 'a = nat] by simp
  ultimately show ?case
    by (simp add: unat_word_ariths)
qed




subsection \<open>The reduction loop of main\<close>

text \<open>
  The embedding of \<^verbatim>\<open>main\<close> starts where the database has been opened and
  checked: at the test of \<^verbatim>\<open>num_countries\<close> and the loop over the country
  records. Three functions that the loop calls are defined elsewhere.
  \<^item> \<^verbatim>\<open>country2rd\<close>: a country record carries what the call returns for it,
    a domain in a block of its own, or \<open>None\<close> for \<^verbatim>\<open>NULL\<close>.
  \<^item> \<^verbatim>\<open>print_regdom\<close>: the call is recorded in a log, with the pointer it
    receives and the domain found there (\<open>None\<close> for \<^verbatim>\<open>NULL\<close>). What the
    function does with its argument is not modelled; the run goes on after it.
  \<^item> \<^verbatim>\<open>is_world_regdom\<close>: see below.

  The messages written with \<^verbatim>\<open>printf\<close> and \<^verbatim>\<open>fprintf\<close> are left out.
\<close>

record 'p regdb_file_reg_country =
  country_alpha2 :: string
  country_rd :: "'p ieee80211_regdomain option"

text \<open>
  Modelled from the spec: \<^verbatim>\<open>is_world_regdom\<close>, which \<^verbatim>\<open>intersect.c\<close> calls and
  does not define. The specification names \<^verbatim>\<open>"00"\<close> as the country code of the
  world placeholder.
\<close>

definition is_world_regdom :: "string \<Rightarrow> bool" where
  "is_world_regdom a \<longleftrightarrow> take 2 a = ''00''"

definition ENOMEM :: int where
  "ENOMEM = 12"

text \<open>
  Storage is a map from block addresses to the domain held there. \<^verbatim>\<open>malloc\<close>
  hands out addresses that were never used before; \<^verbatim>\<open>free\<close> removes the block
  and is logged. Pointers are \<open>nat option\<close>, \<open>None\<close> being \<^verbatim>\<open>NULL\<close>.
\<close>

datatype 'p event = Free nat | Print_regdom "nat option" "'p ieee80211_regdomain option"

record 'p main_state =
  st_heap :: "nat \<rightharpoonup> 'p ieee80211_regdomain"
  st_next :: nat
  st_log :: "'p event list"
  st_prev_world :: "nat option"
  st_rd :: "nat option"
  st_world :: "nat option"
  st_intersected :: int
  st_r :: int

text \<open>
  How a run can end other than by \<^verbatim>\<open>return\<close>: the \<^verbatim>\<open>exit(-1)\<close> of
  \<^verbatim>\<open>BUG_ON\<close>, a \<^verbatim>\<open>free\<close> of a block that is not allocated, and the store
  outside the new block in \<^verbatim>\<open>regdom_intersect\<close>.
\<close>

datatype 'p stop =
    Goto_out "'p main_state"
  | Bug
  | Bad_free
  | Overflow

definition init_state :: "'p main_state" where
  "init_state =
     \<lparr> st_heap = Map.empty, st_next = 0, st_log = [], st_prev_world = None,
       st_rd = None, st_world = None, st_intersected = 0, st_r = 0 \<rparr>"

definition malloc_block ::
  "'p ieee80211_regdomain \<Rightarrow> 'p main_state \<Rightarrow> nat \<times> 'p main_state" where
  "malloc_block d s =
     (st_next s, s \<lparr> st_heap := (st_heap s)(st_next s \<mapsto> d), st_next := Suc (st_next s) \<rparr>)"

definition free_block :: "nat \<Rightarrow> 'p main_state \<Rightarrow> 'p stop + 'p main_state" where
  "free_block p s =
     (if p \<in> dom (st_heap s)
      then Inr (s \<lparr> st_heap := (st_heap s)(p := None), st_log := st_log s @ [Free p] \<rparr>)
      else Inl Bad_free)"

text \<open>\<^verbatim>\<open>if (p) free(p);\<close>\<close>

definition free_if_set :: "nat option \<Rightarrow> 'p main_state \<Rightarrow> 'p stop + 'p main_state" where
  "free_if_set p s = (case p of None \<Rightarrow> Inr s | Some a \<Rightarrow> free_block a s)"

text \<open>The block \<^verbatim>\<open>if (rd) { ... }\<close> at the head of the loop body.\<close>

definition release_rd :: "'p main_state \<Rightarrow> 'p stop + 'p main_state" where
  "release_rd s =
     (case st_rd s of
        None \<Rightarrow> Inr s
      | Some p \<Rightarrow>
          (case free_block p s of
             Inl e \<Rightarrow> Inl e
           | Inr s \<Rightarrow>
               (let s = s \<lparr> st_rd := None \<rparr>
                in if st_world s = None then Inl Bug
                   else Inr (s \<lparr> st_prev_world := st_world s, st_world := None \<rparr>))))"

text \<open>A pointer that is not \<^verbatim>\<open>NULL\<close> is read as the block it points to.\<close>

definition deref :: "'p main_state \<Rightarrow> nat option \<Rightarrow> 'p ieee80211_regdomain option" where
  "deref s p = (case p of None \<Rightarrow> None | Some a \<Rightarrow> st_heap s a)"

text \<open>One turn of the \<^verbatim>\<open>for\<close> loop.\<close>

definition loop_body ::
  "('p::{linorder,zero} ieee80211_reg_rule \<Rightarrow> bool) \<Rightarrow> bool \<Rightarrow>
     'p regdb_file_reg_country \<Rightarrow> 'p main_state \<Rightarrow> 'p stop + 'p main_state" where
  "loop_body is_valid mem country s =
     (if is_world_regdom (country_alpha2 country) then Inr s
      else
        (case release_rd s of
           Inl e \<Rightarrow> Inl e
         | Inr s \<Rightarrow>
             (case country_rd country of
                None \<Rightarrow> Inl (Goto_out (s \<lparr> st_rd := None, st_r := - ENOMEM \<rparr>))
              | Some d \<Rightarrow>
                  (let (p, s) = malloc_block d s;
                       s = s \<lparr> st_rd := Some p \<rparr>
                   in if st_prev_world s = None
                      then Inr (s \<lparr> st_prev_world := st_rd s, st_rd := None \<rparr>)
                      else
                        (case regdom_intersect is_valid mem
                                (deref s (st_prev_world s)) (deref s (st_rd s)) of
                           Inl Heap_overflow \<Rightarrow> Inl Overflow
                         | Inl _ \<Rightarrow>
                             Inl (Goto_out (s \<lparr> st_world := None, st_r := - ENOMEM \<rparr>))
                         | Inr w \<Rightarrow>
                             (let (q, s) = malloc_block w s
                              in Inr (s \<lparr> st_world := Some q,
                                          st_intersected := st_intersected s + 1 \<rparr>)))))))"

fun run_loop ::
  "('p::{linorder,zero} ieee80211_reg_rule \<Rightarrow> bool) \<Rightarrow> bool \<Rightarrow>
     'p regdb_file_reg_country list \<Rightarrow> 'p main_state \<Rightarrow> 'p stop + 'p main_state" where
  "run_loop is_valid mem [] s = Inr s"
| "run_loop is_valid mem (country # countries) s =
     (case loop_body is_valid mem country s of
        Inl e \<Rightarrow> Inl e
      | Inr s \<Rightarrow> run_loop is_valid mem countries s)"

text \<open>The code from the label \<^verbatim>\<open>out\<close> to the \<^verbatim>\<open>return\<close>.\<close>

definition out :: "'p main_state \<Rightarrow> 'p stop + 'p main_state" where
  "out s =
     (case free_if_set (st_world s) s of
        Inl e \<Rightarrow> Inl e
      | Inr s \<Rightarrow>
          (case free_if_set (st_rd s) s of
             Inl e \<Rightarrow> Inl e
           | Inr s \<Rightarrow> free_if_set (st_prev_world s) s))"

text \<open>
  The result is the state at the \<^verbatim>\<open>return\<close>, with the return value in
  \<open>st_r\<close>, or the reason why the run did not get there.
\<close>

definition crda_main ::
  "('p::{linorder,zero} ieee80211_reg_rule \<Rightarrow> bool) \<Rightarrow> bool \<Rightarrow>
     'p regdb_file_reg_country list \<Rightarrow> 'p stop + 'p main_state" where
  "crda_main is_valid mem countries =
     (if int (length countries) \<le> 0 then Inr init_state
      else
        (case run_loop is_valid mem countries init_state of
           Inl (Goto_out s) \<Rightarrow> out s
         | Inl e \<Rightarrow> Inl e
         | Inr s \<Rightarrow>
             out (s \<lparr> st_log := st_log s @
                          [Print_regdom (st_world s) (deref s (st_world s))] \<rparr>)))"

subsection \<open>Pairs that survive\<close>

text \<open>
  Vocabulary for the statements about the two passes. A pair of rules succeeds
  when \<^verbatim>\<open>reg_rules_intersect\<close> returns \<open>0\<close> on it; its candidate is the rule
  that the call stores; the survivors of a list of pairs are the candidates of
  the pairs that succeed, in the order of the list.
\<close>

definition succeeds ::
  "('p::linorder ieee80211_reg_rule \<Rightarrow> bool) \<Rightarrow>
     'p ieee80211_reg_rule \<times> 'p ieee80211_reg_rule \<Rightarrow> bool" where
  "succeeds is_valid p \<longleftrightarrow> fst (reg_rules_intersect is_valid (fst p) (snd p)) = 0"

definition candidate ::
  "('p::linorder ieee80211_reg_rule \<Rightarrow> bool) \<Rightarrow>
     'p ieee80211_reg_rule \<times> 'p ieee80211_reg_rule \<Rightarrow> 'p ieee80211_reg_rule" where
  "candidate is_valid p = snd (reg_rules_intersect is_valid (fst p) (snd p))"

definition survivors ::
  "('p::linorder ieee80211_reg_rule \<Rightarrow> bool) \<Rightarrow>
     ('p ieee80211_reg_rule \<times> 'p ieee80211_reg_rule) list \<Rightarrow> 'p ieee80211_reg_rule list" where
  "survivors is_valid ps = map (candidate is_valid) (filter (succeeds is_valid) ps)"

text \<open>
  Three rules regroup under a validity check when the check accepts both steps
  of intersecting the first two and then the third exactly when it accepts
  both steps of intersecting the first with the intersection of the other two.
\<close>

definition regroups ::
  "('p::linorder ieee80211_reg_rule \<Rightarrow> bool) \<Rightarrow> 'p ieee80211_reg_rule \<Rightarrow>
     'p ieee80211_reg_rule \<Rightarrow> 'p ieee80211_reg_rule \<Rightarrow> bool" where
  "regroups is_valid a b c \<longleftrightarrow>
     (fst (reg_rules_intersect is_valid a b) = 0 \<and>
      fst (reg_rules_intersect is_valid (snd (reg_rules_intersect is_valid a b)) c) = 0) =
     (fst (reg_rules_intersect is_valid b c) = 0 \<and>
      fst (reg_rules_intersect is_valid a (snd (reg_rules_intersect is_valid b c))) = 0)"

subsection \<open>Example data\<close>

text \<open>
  Rules and domains for concrete runs, with 32-bit unsigned power limits. The
  arguments of \<open>mk_rule\<close> are start, end, bandwidth, antenna gain, EIRP and
  flags.
\<close>

definition mk_rule :: "u32 \<Rightarrow> u32 \<Rightarrow> u32 \<Rightarrow> u32 \<Rightarrow> u32 \<Rightarrow> u32 \<Rightarrow> u32 ieee80211_reg_rule" where
  "mk_rule s e b g p f =
     \<lparr> freq_range = \<lparr> start_freq_khz = s, end_freq_khz = e, max_bandwidth_khz = b \<rparr>,
       power_rule = \<lparr> max_antenna_gain = g, max_eirp = p \<rparr>, flags = f \<rparr>"

definition mk_domain :: "string \<Rightarrow> u32 ieee80211_reg_rule list \<Rightarrow> u32 ieee80211_regdomain" where
  "mk_domain a rules = \<lparr> n_reg_rules = of_nat (length rules), alpha2 = a, reg_rules = rules \<rparr>"

text \<open>The validity check of the specification without any external check.\<close>

definition range_check :: "u32 ieee80211_reg_rule \<Rightarrow> bool" where
  "range_check = is_valid_reg_rule (\<lambda>_. True)"

definition mk_country :: "string \<Rightarrow> u32 ieee80211_reg_rule list \<Rightarrow> u32 regdb_file_reg_country" where
  "mk_country a rules = \<lparr> country_alpha2 = a, country_rd = Some (mk_domain a rules) \<rparr>"

text \<open>An external check that rejects a rule whose range starts at 0 kHz.\<close>

definition nonzero_start :: "u32 ieee80211_reg_rule \<Rightarrow> bool" where
  "nonzero_start rule \<longleftrightarrow> start_freq_khz (freq_range rule) \<noteq> 0"

text \<open>An external check that rejects a rule whose flags are exactly 3.\<close>

definition flags_not_3 :: "u32 ieee80211_reg_rule \<Rightarrow> bool" where
  "flags_not_3 rule \<longleftrightarrow> flags rule \<noteq> 3"


section \<open>Properties\<close>

subsection \<open>The rule intersector\<close>

lemma reg_rules_intersect_fields:
  "snd (reg_rules_intersect is_valid rule1 rule2) =
     \<lparr> freq_range =
         \<lparr> start_freq_khz = max (start_freq_khz (freq_range rule1)) (start_freq_khz (freq_range rule2)),
           end_freq_khz = min (end_freq_khz (freq_range rule1)) (end_freq_khz (freq_range rule2)),
           max_bandwidth_khz =
             min (min (max_bandwidth_khz (freq_range rule1)) (max_bandwidth_khz (freq_range rule2)))
                 (min (end_freq_khz (freq_range rule1)) (end_freq_khz (freq_range rule2)) -
                  max (start_freq_khz (freq_range rule1)) (start_freq_khz (freq_range rule2))) \<rparr>,
       power_rule =
         \<lparr> max_antenna_gain = min (max_antenna_gain (power_rule rule1)) (max_antenna_gain (power_rule rule2)),
           max_eirp = min (max_eirp (power_rule rule1)) (max_eirp (power_rule rule2)) \<rparr>,
       flags = flags rule1 OR flags rule2 \<rparr>"
proof -
  have clamp: "(if b > d then d else b) = min b d" for b d :: u32
    by (auto simp: min_def)
  show ?thesis
    unfolding reg_rules_intersect_def Let_def clamp by simp
qed

lemma reg_rules_intersect_code:
  "fst (reg_rules_intersect is_valid rule1 rule2) =
     (if is_valid (snd (reg_rules_intersect is_valid rule1 rule2)) then 0 else - EINVAL)"
  by (simp add: reg_rules_intersect_def Let_def)

subsection \<open>Claims about the rule intersector\<close>


text \<open>
  Claim C1. Whenever \<^verbatim>\<open>reg_rules_intersect\<close> returns \<open>0\<close>, the rule it stored
  starts at the larger start and ends at the smaller end of the two inputs; its
  bandwidth is the smaller of the two bandwidths, replaced by
  \<open>end_freq_khz - start_freq_khz\<close> of the result when it exceeds that span; its
  EIRP and antenna gain are the smaller of the inputs'; its flags are the
  bitwise OR of the inputs' flags. This holds whatever \<^verbatim>\<open>is_valid_reg_rule\<close>
  is; the subtraction is that of the code, on 32-bit unsigned values.
\<close>

theorem intersect_rule_fields:
  assumes "reg_rules_intersect is_valid rule1 rule2 = (0, r)"
  shows "start_freq_khz (freq_range r) =
           max (start_freq_khz (freq_range rule1)) (start_freq_khz (freq_range rule2)) \<and>
         end_freq_khz (freq_range r) =
           min (end_freq_khz (freq_range rule1)) (end_freq_khz (freq_range rule2)) \<and>
         max_bandwidth_khz (freq_range r) =
           (if end_freq_khz (freq_range r) - start_freq_khz (freq_range r) <
               min (max_bandwidth_khz (freq_range rule1)) (max_bandwidth_khz (freq_range rule2))
            then end_freq_khz (freq_range r) - start_freq_khz (freq_range r)
            else min (max_bandwidth_khz (freq_range rule1)) (max_bandwidth_khz (freq_range rule2))) \<and>
         max_eirp (power_rule r) = min (max_eirp (power_rule rule1)) (max_eirp (power_rule rule2)) \<and>
         max_antenna_gain (power_rule r) =
           min (max_antenna_gain (power_rule rule1)) (max_antenna_gain (power_rule rule2)) \<and>
         flags r = flags rule1 OR flags rule2"
proof -
  have r: "r = snd (reg_rules_intersect is_valid rule1 rule2)"
    using assms by simp
  show ?thesis
    unfolding r reg_rules_intersect_fields by (auto simp: min_def)
qed

theorem intersect_rule_fields_witness:
  "reg_rules_intersect (is_valid_reg_rule (\<lambda>_. True))
     (mk_rule 2400 2483 40 6 20 1) (mk_rule 2400 2450 20 3 17 2) = (0, mk_rule 2400 2450 20 3 17 3) \<and>
   max_bandwidth_khz (freq_range (mk_rule 2400 2450 20 3 17 3)) = 20 \<and>
   flags (mk_rule 2400 2450 20 3 17 3) = 1 OR 2"
proof -
  have h: "reg_rules_intersect (is_valid_reg_rule (\<lambda>_. True))
     (mk_rule 2400 2483 40 6 20 1) (mk_rule 2400 2450 20 3 17 2) = (0, mk_rule 2400 2450 20 3 17 3)"
    by (simp add: reg_rules_intersect_def is_valid_reg_rule_def mk_rule_def Let_def)
  from intersect_rule_fields [OF h] h show ?thesis
    by (simp add: mk_rule_def)
qed

text \<open>
  Claim C3. With the validity check of the specification, whenever
  \<^verbatim>\<open>reg_rules_intersect\<close> returns \<open>0\<close> the frequency range of the result lies
  within the range of each input, the range is not empty, and the bandwidth of
  the result is at most the span of the result, computed without wrap-around.
\<close>

theorem intersect_rule_contained:
  assumes "reg_rules_intersect (is_valid_reg_rule ext) rule1 rule2 = (0, r)"
  shows "start_freq_khz (freq_range rule1) \<le> start_freq_khz (freq_range r) \<and>
         start_freq_khz (freq_range rule2) \<le> start_freq_khz (freq_range r) \<and>
         end_freq_khz (freq_range r) \<le> end_freq_khz (freq_range rule1) \<and>
         end_freq_khz (freq_range r) \<le> end_freq_khz (freq_range rule2) \<and>
         start_freq_khz (freq_range r) \<le> end_freq_khz (freq_range r) \<and>
         unat (max_bandwidth_khz (freq_range r)) \<le>
           unat (end_freq_khz (freq_range r)) - unat (start_freq_khz (freq_range r))"
proof -
  have r: "r = snd (reg_rules_intersect (is_valid_reg_rule ext) rule1 rule2)"
    using assms by simp
  have "fst (reg_rules_intersect (is_valid_reg_rule ext) rule1 rule2) = 0"
    using assms by simp
  then have valid: "is_valid_reg_rule ext r"
    unfolding reg_rules_intersect_code r [symmetric] by (simp add: EINVAL_def split: if_splits)
  then have le: "start_freq_khz (freq_range r) \<le> end_freq_khz (freq_range r)"
    and bw: "max_bandwidth_khz (freq_range r) \<le> end_freq_khz (freq_range r) - start_freq_khz (freq_range r)"
    by (simp_all add: is_valid_reg_rule_def Let_def)
  have "unat (max_bandwidth_khz (freq_range r)) \<le>
           unat (end_freq_khz (freq_range r)) - unat (start_freq_khz (freq_range r))"
    using bw le by (simp add: word_le_nat_alt unat_sub)
  moreover have "start_freq_khz (freq_range rule1) \<le> start_freq_khz (freq_range r)"
    "start_freq_khz (freq_range rule2) \<le> start_freq_khz (freq_range r)"
    "end_freq_khz (freq_range r) \<le> end_freq_khz (freq_range rule1)"
    "end_freq_khz (freq_range r) \<le> end_freq_khz (freq_range rule2)"
    unfolding r reg_rules_intersect_fields by simp_all
  ultimately show ?thesis using le by simp
qed

theorem intersect_rule_contained_witness:
  "reg_rules_intersect (is_valid_reg_rule (\<lambda>_. True))
     (mk_rule 2400 2483 40 6 20 1) (mk_rule 2412 2450 60 3 17 2) = (0, mk_rule 2412 2450 38 3 17 3) \<and>
   unat (max_bandwidth_khz (freq_range (mk_rule 2412 2450 38 3 17 3))) \<le> 2450 - 2412"
proof -
  have h: "reg_rules_intersect (is_valid_reg_rule (\<lambda>_. True))
     (mk_rule 2400 2483 40 6 20 1) (mk_rule 2412 2450 60 3 17 2) = (0, mk_rule 2412 2450 38 3 17 3)"
    by (simp add: reg_rules_intersect_def is_valid_reg_rule_def mk_rule_def Let_def)
  from intersect_rule_contained [OF h] h show ?thesis
    by (simp add: mk_rule_def)
qed

text \<open>
  Claim C5. \<^verbatim>\<open>reg_rules_intersect\<close> is commutative: swapping the two input rules
  changes neither the return value nor the rule that is stored, so both orders
  fail or both succeed with the same rule. This holds whatever
  \<^verbatim>\<open>is_valid_reg_rule\<close> is.
\<close>

theorem intersect_rule_commutative:
  "reg_rules_intersect is_valid rule1 rule2 = reg_rules_intersect is_valid rule2 rule1"
proof -
  have "snd (reg_rules_intersect is_valid rule1 rule2) = snd (reg_rules_intersect is_valid rule2 rule1)"
    unfolding reg_rules_intersect_fields
    by (simp add: min.commute max.commute or.commute)
  moreover from this
  have "fst (reg_rules_intersect is_valid rule1 rule2) = fst (reg_rules_intersect is_valid rule2 rule1)"
    unfolding reg_rules_intersect_code by simp
  ultimately show ?thesis by (simp add: prod_eq_iff)
qed

subsection \<open>The two passes of the domain intersector\<close>

lemma survivors_Nil: "survivors is_valid [] = []"
  by (simp add: survivors_def)

lemma survivors_Cons:
  "survivors is_valid (p # ps) =
     (if succeeds is_valid p then candidate is_valid p # survivors is_valid ps
      else survivors is_valid ps)"
  by (simp add: survivors_def)

lemma survivors_append:
  "survivors is_valid (ps @ qs) = survivors is_valid ps @ survivors is_valid qs"
  by (simp add: survivors_def)

lemma survivors_last:
  assumes "ps \<noteq> []" "succeeds is_valid (last ps)"
  shows "survivors is_valid ps \<noteq> []"
proof -
  have "last ps \<in> set (filter (succeeds is_valid) ps)"
    using assms by simp
  then show ?thesis
    unfolding survivors_def by (metis empty_iff list.set(1) map_is_Nil_conv)
qed

lemma count_pair_eq:
  "count_pair is_valid a b n = (if succeeds is_valid (a, b) then n + 1 else n)"
  by (simp add: count_pair_def succeeds_def)

lemma fill_pair_eq:
  "fill_pair is_valid a b (Inr (slots, idx)) =
     (if unat idx < length slots
      then Inr (slots[unat idx := candidate is_valid (a, b)],
                if succeeds is_valid (a, b) then idx + 1 else idx)
      else Inl Heap_overflow)"
  by (simp add: fill_pair_def succeeds_def candidate_def split_beta)

lemma fill_pair_Inl: "fill_pair is_valid a b (Inl e) = Inl e"
  by (simp add: fill_pair_def)

lemma fold_nth: "fold (\<lambda>i. g (xs ! i)) [0..<length xs] = fold g xs"
proof -
  have "fold g xs = fold g (map ((!) xs) [0..<length xs])"
    by (simp add: map_nth)
  also have "\<dots> = fold (g \<circ> (!) xs) [0..<length xs]"
    by (rule fold_map)
  finally show ?thesis by (simp add: comp_def)
qed

lemma fold_product:
  "fold (\<lambda>a. fold (\<lambda>b. f a b) ys) xs s = fold (\<lambda>(a, b). f a b) (List.product xs ys) s"
  by (induction xs arbitrary: s) (simp_all add: fold_map comp_def)

lemma nested_loops:
  assumes "length xs = m" "length ys = n"
  shows "fold (\<lambda>x. fold (\<lambda>y. f (xs ! x) (ys ! y)) [0..<n]) [0..<m] s =
         fold (\<lambda>(a, b). f a b) (List.product xs ys) s"
proof -
  have inner: "fold (\<lambda>y. f a (ys ! y)) [0..<n] = fold (f a) ys" for a
    using fold_nth [of "f a" ys] assms by simp
  have "fold (\<lambda>x. fold (\<lambda>y. f (xs ! x) (ys ! y)) [0..<n]) [0..<m] s =
        fold (\<lambda>x. (\<lambda>a. fold (f a) ys) (xs ! x)) [0..<m] s"
    by (simp add: inner)
  also have "\<dots> = fold (\<lambda>a. fold (f a) ys) xs s"
    using fold_nth [of "\<lambda>a. fold (f a) ys" xs] assms by simp
  also have "\<dots> = fold (\<lambda>(a, b). f a b) (List.product xs ys) s"
    by (rule fold_product)
  finally show ?thesis .
qed

lemma count_fold:
  "fold (\<lambda>(a, b). count_pair is_valid a b) ps n = n + of_nat (length (survivors is_valid ps))"
  by (induction ps arbitrary: n) (auto simp: count_pair_eq survivors_Nil survivors_Cons)

lemma count_rules_eq:
  assumes "wf_regdomain rd1" "wf_regdomain rd2"
  shows "count_rules is_valid rd1 rd2 =
         of_nat (length (survivors is_valid (List.product (reg_rules rd1) (reg_rules rd2))))"
  using assms unfolding count_rules_def wf_regdomain_def
  by (simp add: nested_loops count_fold)

lemma fill_rules_eq:
  assumes "wf_regdomain rd1" "wf_regdomain rd2"
  shows "fill_rules is_valid rd1 rd2 slots =
         fold (\<lambda>(a, b). fill_pair is_valid a b) (List.product (reg_rules rd1) (reg_rules rd2))
           (Inr (slots, 0))"
  using assms unfolding fill_rules_def wf_regdomain_def
  by (simp add: nested_loops)

lemma fill_fold_Inl: "fold (\<lambda>(a, b). fill_pair is_valid a b) ps (Inl e) = Inl e"
  by (induction ps) (auto simp: fill_pair_Inl)

text \<open>
  One step of the filling loop inside the block: the length of the array stays,
  \<^verbatim>\<open>rule_idx\<close> moves by one exactly for a pair that succeeds, and the slots
  below the new \<^verbatim>\<open>rule_idx\<close> are those below the old one, followed by the
  candidate if it was accepted.
\<close>

lemma fill_pair_step:
  assumes "unat idx < length slots" "length slots < 2 ^ 32"
  obtains slots1 idx1 where
    "fill_pair is_valid a b (Inr (slots, idx)) = Inr (slots1, idx1)"
    "length slots1 = length slots"
    "unat idx1 = unat idx + length (survivors is_valid [(a, b)])"
    "take (unat idx1) slots1 = take (unat idx) slots @ survivors is_valid [(a, b)]"
proof (cases "succeeds is_valid (a, b)")
  case True
  have u: "unat (idx + 1) = unat idx + 1"
    using assms by (simp add: unat_word_ariths)
  show ?thesis
  proof (rule that)
    show "fill_pair is_valid a b (Inr (slots, idx)) =
        Inr (slots[unat idx := candidate is_valid (a, b)], idx + 1)"
      using True assms by (simp add: fill_pair_eq)
    show "length (slots[unat idx := candidate is_valid (a, b)]) = length slots"
      by simp
    show "unat (idx + 1) = unat idx + length (survivors is_valid [(a, b)])"
      using True u by (simp add: survivors_Cons survivors_Nil)
    show "take (unat (idx + 1)) (slots[unat idx := candidate is_valid (a, b)]) =
        take (unat idx) slots @ survivors is_valid [(a, b)]"
      using True u assms by (simp add: survivors_Cons survivors_Nil take_Suc_conv_app_nth)
  qed
next
  case False
  show ?thesis
  proof (rule that)
    show "fill_pair is_valid a b (Inr (slots, idx)) =
        Inr (slots[unat idx := candidate is_valid (a, b)], idx)"
      using False assms by (simp add: fill_pair_eq)
    show "length (slots[unat idx := candidate is_valid (a, b)]) = length slots"
      by simp
    show "unat idx = unat idx + length (survivors is_valid [(a, b)])"
      using False by (simp add: survivors_Cons survivors_Nil)
    show "take (unat idx) (slots[unat idx := candidate is_valid (a, b)]) =
        take (unat idx) slots @ survivors is_valid [(a, b)]"
      using False by (simp add: survivors_Cons survivors_Nil)
  qed
qed

lemma survivors_split:
  "survivors is_valid (p # ps) = survivors is_valid [p] @ survivors is_valid ps"
  using survivors_append [of is_valid "[p]" ps] by simp

text \<open>What a filling pass that stays inside the block leaves behind.\<close>

lemma fill_fold_inv:
  assumes "fold (\<lambda>(a, b). fill_pair is_valid a b) ps (Inr (slots, idx)) = Inr (slots', idx')"
    and "unat idx \<le> length slots" and "length slots < 2 ^ 32"
  shows "length slots' = length slots \<and>
         unat idx' = unat idx + length (survivors is_valid ps) \<and>
         take (unat idx') slots' = take (unat idx) slots @ survivors is_valid ps"
  using assms
proof (induction ps arbitrary: slots idx)
  case Nil
  then show ?case by (simp add: survivors_Nil)
next
  case (Cons p ps)
  obtain a b where p: "p = (a, b)" by (cases p)
  show ?case
  proof (cases "unat idx < length slots")
    case False
    then have "fill_pair is_valid a b (Inr (slots, idx)) = Inl Heap_overflow"
      by (simp add: fill_pair_eq)
    with Cons.prems(1) p show ?thesis by (simp add: fill_fold_Inl)
  next
    case True
    from fill_pair_step [OF True Cons.prems(3), of is_valid a b]
    obtain slots1 idx1 where
      step: "fill_pair is_valid a b (Inr (slots, idx)) = Inr (slots1, idx1)"
      and len: "length slots1 = length slots"
      and idx1: "unat idx1 = unat idx + length (survivors is_valid [(a, b)])"
      and tk: "take (unat idx1) slots1 = take (unat idx) slots @ survivors is_valid [(a, b)]"
      by blast
    have le: "unat idx1 \<le> length slots1"
    proof -
      have "length (take (unat idx1) slots1) = unat idx + length (survivors is_valid [(a, b)])"
        using tk True by simp
      then show ?thesis using idx1 by simp
    qed
    have rest: "fold (\<lambda>(a, b). fill_pair is_valid a b) ps (Inr (slots1, idx1)) = Inr (slots', idx')"
      using Cons.prems(1) p step by simp
    have l32: "length slots1 < 2 ^ 32"
      using len Cons.prems(3) by simp
    note ih = Cons.IH [OF rest le l32]
    have "length slots' = length slots"
      using ih [THEN conjunct1] len by simp
    moreover have "unat idx' = unat idx + length (survivors is_valid (p # ps))"
      using ih [THEN conjunct2, THEN conjunct1] idx1
      unfolding p survivors_split [of is_valid "(a, b)" ps] by simp
    moreover have "take (unat idx') slots' = take (unat idx) slots @ survivors is_valid (p # ps)"
      using ih [THEN conjunct2, THEN conjunct2]
      unfolding p survivors_split [of is_valid "(a, b)" ps] tk by simp
    ultimately show ?thesis by blast
  qed
qed

text \<open>
  When the filling pass stays inside the block, and when it does not. With
  \<open>k\<close> pairs still to succeed and \<^verbatim>\<open>rule_idx\<close> slots filled, the pass stays
  inside if the block has room for more than \<open>k\<close> further rules, or for exactly
  \<open>k\<close> and the last pair succeeds; otherwise some pair is stored at
  \<^verbatim>\<open>rule_idx = length slots\<close>.
\<close>

lemma fill_fold_no_overflow:
  assumes "length slots < 2 ^ 32"
    and "unat idx + length (survivors is_valid ps) < length slots \<or>
         unat idx + length (survivors is_valid ps) = length slots \<and>
           (ps = [] \<or> succeeds is_valid (last ps))"
  shows "\<exists>slots' idx'.
           fold (\<lambda>(a, b). fill_pair is_valid a b) ps (Inr (slots, idx)) = Inr (slots', idx')"
  using assms
proof (induction ps arbitrary: slots idx)
  case Nil
  then show ?case by simp
next
  case (Cons p ps)
  obtain a b where p: "p = (a, b)" by (cases p)
  define k where "k = length (survivors is_valid ps)"
  define d where "d = length (survivors is_valid [(a, b)])"
  have split: "length (survivors is_valid (p # ps)) = d + k"
    unfolding p k_def d_def survivors_split [of is_valid "(a, b)" ps] by simp
  have room: "unat idx + (d + k) < length slots \<or>
      unat idx + (d + k) = length slots \<and> succeeds is_valid (last (p # ps))"
    using Cons.prems(2) unfolding split by blast
  have pos: "0 < d + k" if "succeeds is_valid (last (p # ps))"
  proof -
    have "survivors is_valid (p # ps) \<noteq> []"
      using that by (intro survivors_last) simp
    then have "0 < length (survivors is_valid (p # ps))"
      by blast
    then show ?thesis unfolding split .
  qed
  have inb: "unat idx < length slots"
    using room pos by auto
  from fill_pair_step [OF inb Cons.prems(1), of is_valid a b]
  obtain slots1 idx1 where
    step: "fill_pair is_valid a b (Inr (slots, idx)) = Inr (slots1, idx1)"
    and len: "length slots1 = length slots"
    and idx1: "unat idx1 = unat idx + d"
    unfolding d_def by blast
  have last_ps: "ps \<noteq> [] \<Longrightarrow> last (p # ps) = last ps"
    by simp
  have "unat idx1 + k < length slots1 \<or>
      unat idx1 + k = length slots1 \<and> (ps = [] \<or> succeeds is_valid (last ps))"
    using room idx1 len last_ps by (cases "ps = []") (auto simp: add.assoc)
  then have "\<exists>slots' idx'.
      fold (\<lambda>(a, b). fill_pair is_valid a b) ps (Inr (slots1, idx1)) = Inr (slots', idx')"
    using Cons.IH [of slots1 idx1] Cons.prems(1) len unfolding k_def by simp
  then show ?case using p step by simp
qed

lemma fill_fold_overflow:
  assumes "length slots < 2 ^ 32" and "unat idx \<le> length slots"
    and "length slots < unat idx + length (survivors is_valid ps) \<or>
         unat idx + length (survivors is_valid ps) = length slots \<and>
           ps \<noteq> [] \<and> \<not> succeeds is_valid (last ps)"
  shows "fold (\<lambda>(a, b). fill_pair is_valid a b) ps (Inr (slots, idx)) = Inl Heap_overflow"
  using assms
proof (induction ps arbitrary: slots idx)
  case Nil
  then show ?case by (simp add: survivors_Nil)
next
  case (Cons p ps)
  obtain a b where p: "p = (a, b)" by (cases p)
  show ?case
  proof (cases "unat idx < length slots")
    case False
    then have "fill_pair is_valid a b (Inr (slots, idx)) = Inl Heap_overflow"
      by (simp add: fill_pair_eq)
    then show ?thesis using p by (simp add: fill_fold_Inl)
  next
    case inb: True
    define k where "k = length (survivors is_valid ps)"
    define d where "d = length (survivors is_valid [(a, b)])"
    have split: "length (survivors is_valid (p # ps)) = d + k"
      unfolding p k_def d_def survivors_split [of is_valid "(a, b)" ps] by simp
    have over: "length slots < unat idx + (d + k) \<or>
        unat idx + (d + k) = length slots \<and> \<not> succeeds is_valid (last (p # ps))"
      using Cons.prems(3) unfolding split by blast
    from fill_pair_step [OF inb Cons.prems(1), of is_valid a b]
    obtain slots1 idx1 where
      step: "fill_pair is_valid a b (Inr (slots, idx)) = Inr (slots1, idx1)"
      and len: "length slots1 = length slots"
      and idx1: "unat idx1 = unat idx + d"
      unfolding d_def by blast
    have d_le: "d \<le> 1"
      unfolding d_def by (simp add: survivors_Cons survivors_Nil)
    have le: "unat idx1 \<le> length slots1"
      using idx1 len inb d_le by simp
    have last_ps: "ps \<noteq> [] \<Longrightarrow> last (p # ps) = last ps"
      by simp
    have d0: "d = 0" if "ps = []" "\<not> succeeds is_valid (last (p # ps))"
      using that unfolding d_def p by (simp add: survivors_Cons survivors_Nil)
    have k0: "k = 0" if "ps = []"
      using that unfolding k_def by (simp add: survivors_Nil)
    have "length slots1 < unat idx1 + k \<or>
        unat idx1 + k = length slots1 \<and> ps \<noteq> [] \<and> \<not> succeeds is_valid (last ps)"
    proof (cases "ps = []")
      case True
      with over idx1 len inb d0 k0 d_le show ?thesis by auto
    next
      case False
      with over idx1 len last_ps show ?thesis by (auto simp: add.assoc)
    qed
    then have "fold (\<lambda>(a, b). fill_pair is_valid a b) ps (Inr (slots1, idx1)) = Inl Heap_overflow"
      using Cons.IH [of slots1 idx1] Cons.prems(1) len le unfolding k_def by simp
    then show ?thesis using p step by simp
  qed
qed

text \<open>
  The outcome of \<^verbatim>\<open>regdom_intersect\<close> on two domains, in closed form. The test
  \<^verbatim>\<open>rule_idx != num_rules\<close> never fires: both passes see the same pairs.
\<close>

lemma regdom_intersect_eq:
  assumes wf: "wf_regdomain rd1" "wf_regdomain rd2"
  shows "regdom_intersect is_valid mem (Some rd1) (Some rd2) =
     (let ps = List.product (reg_rules rd1) (reg_rules rd2);
          sv = survivors is_valid ps
      in if (of_nat (length sv) :: u32) = 0 then Inl Num_rules_zero
         else if \<not> mem then Inl No_memory
         else if length sv < 2 ^ 32 \<and> succeeds is_valid (last ps)
         then Inr \<lparr> n_reg_rules = of_nat (length sv), alpha2 = ''99'', reg_rules = sv \<rparr>
         else Inl Heap_overflow)"
proof -
  define ps where "ps = List.product (reg_rules rd1) (reg_rules rd2)"
  define sv where "sv = survivors is_valid ps"
  define num :: u32 where "num = of_nat (length sv)"
  define slots0 :: "'a ieee80211_reg_rule list" where "slots0 = replicate (unat num) zero_rule"
  have count: "count_rules is_valid rd1 rd2 = num"
    unfolding num_def sv_def ps_def by (rule count_rules_eq [OF wf])
  have fill: "fill_rules is_valid rd1 rd2 slots0 =
      fold (\<lambda>(a, b). fill_pair is_valid a b) ps (Inr (slots0, 0))"
    unfolding ps_def by (rule fill_rules_eq [OF wf])
  have len0: "length slots0 = unat num"
    by (simp add: slots0_def)
  have l32: "length slots0 < 2 ^ 32"
    unfolding len0 using unsigned_less [of num, where 'a = nat] by simp
  have unfold: "regdom_intersect is_valid mem (Some rd1) (Some rd2) =
      (if num = 0 then Inl Num_rules_zero
       else if \<not> mem then Inl No_memory
       else case fold (\<lambda>(a, b). fill_pair is_valid a b) ps (Inr (slots0, 0)) of
              Inl e \<Rightarrow> Inl e
            | Inr (slots, rule_idx) \<Rightarrow>
                if rule_idx \<noteq> num then Inl Count_mismatch
                else Inr \<lparr> n_reg_rules = num, alpha2 = ''99'', reg_rules = slots \<rparr>)"
    using count fill unfolding slots0_def
    by (auto simp: regdom_intersect_def Let_def split: sum.splits prod.splits)
  have inside: "fold (\<lambda>(a, b). fill_pair is_valid a b) ps (Inr (slots0, 0)) = Inr (sv, num)"
    if small: "length sv < 2 ^ 32" and last: "succeeds is_valid (last ps)"
  proof -
    have un: "unat num = length sv"
      unfolding num_def using small by (simp add: unat_of_nat)
    have "\<exists>slots' idx'. fold (\<lambda>(a, b). fill_pair is_valid a b) ps (Inr (slots0, 0)) = Inr (slots', idx')"
      using l32 last un len0 unfolding sv_def
      by (intro fill_fold_no_overflow) simp_all
    then obtain slots' idx' where
      r: "fold (\<lambda>(a, b). fill_pair is_valid a b) ps (Inr (slots0, 0)) = Inr (slots', idx')"
      by blast
    have z: "unat (0 :: u32) \<le> length slots0"
      by simp
    note inv = fill_fold_inv [OF r z l32]
    have "length slots' = length sv"
      using inv [THEN conjunct1] len0 un by simp
    moreover have i: "unat idx' = length sv"
      using inv [THEN conjunct2, THEN conjunct1] unfolding sv_def by simp
    moreover have "take (unat idx') slots' = sv"
      using inv [THEN conjunct2, THEN conjunct2] unfolding sv_def by simp
    ultimately have "slots' = sv"
      by simp
    moreover have "idx' = num"
      using i un by (simp add: word_unat_eq_iff)
    ultimately show ?thesis using r by simp
  qed
  have outside: "fold (\<lambda>(a, b). fill_pair is_valid a b) ps (Inr (slots0, 0)) = Inl Heap_overflow"
    if nz: "num \<noteq> 0" and bad: "\<not> (length sv < 2 ^ 32 \<and> succeeds is_valid (last ps))"
  proof -
    have ne: "ps \<noteq> []"
      using nz unfolding num_def sv_def by (auto simp: survivors_Nil)
    have "length slots0 < unat (0 :: u32) + length (survivors is_valid ps) \<or>
         unat (0 :: u32) + length (survivors is_valid ps) = length slots0 \<and>
           ps \<noteq> [] \<and> \<not> succeeds is_valid (last ps)"
    proof (cases "length sv < 2 ^ 32")
      case True
      then have "unat num = length sv"
        unfolding num_def by (simp add: unat_of_nat)
      then show ?thesis
        using bad True ne len0 unfolding sv_def by simp
    next
      case False
      have "unat num < 2 ^ 32"
        using unsigned_less [of num, where 'a = nat] by simp
      then show ?thesis
        using False len0 unfolding sv_def by simp
    qed
    then show ?thesis
      using l32 by (intro fill_fold_overflow) simp_all
  qed
  show ?thesis
    unfolding unfold Let_def ps_def [symmetric] sv_def [symmetric] num_def [symmetric]
    using inside outside by auto
qed

lemma regdom_intersect_Inr:
  assumes ok: "regdom_intersect is_valid mem (Some rd1) (Some rd2) = Inr rd"
    and wf: "wf_regdomain rd1" "wf_regdomain rd2"
  shows "reg_rules rd = survivors is_valid (List.product (reg_rules rd1) (reg_rules rd2))"
    and "unat (n_reg_rules rd) = length (reg_rules rd)"
    and "alpha2 rd = ''99''"
    and "succeeds is_valid (last (List.product (reg_rules rd1) (reg_rules rd2)))"
    and "reg_rules rd \<noteq> []"
proof -
  let ?sv = "survivors is_valid (List.product (reg_rules rd1) (reg_rules rd2))"
  from ok have rd: "rd = \<lparr> n_reg_rules = of_nat (length ?sv), alpha2 = ''99'', reg_rules = ?sv \<rparr>"
    and small: "length ?sv < 2 ^ 32"
    and last: "succeeds is_valid (last (List.product (reg_rules rd1) (reg_rules rd2)))"
    and nz: "(of_nat (length ?sv) :: u32) \<noteq> 0"
    unfolding regdom_intersect_eq [OF wf] Let_def by (simp_all split: if_splits)
  show "reg_rules rd = ?sv" using rd by simp
  show "unat (n_reg_rules rd) = length (reg_rules rd)"
    using rd small by (simp add: unat_of_nat)
  show "alpha2 rd = ''99''" using rd by simp
  show "succeeds is_valid (last (List.product (reg_rules rd1) (reg_rules rd2)))"
    by (rule last)
  show "reg_rules rd \<noteq> []" using rd nz by auto
qed


subsection \<open>Claims about the domain intersector\<close>

lemma survivors_expand:
  "survivors is_valid ps =
     map (\<lambda>(rule1, rule2). snd (reg_rules_intersect is_valid rule1 rule2))
       (filter (\<lambda>(rule1, rule2). fst (reg_rules_intersect is_valid rule1 rule2) = 0) ps)"
proof -
  have "candidate is_valid = (\<lambda>(rule1, rule2). snd (reg_rules_intersect is_valid rule1 rule2))"
    by (simp add: fun_eq_iff candidate_def)
  moreover have "succeeds is_valid =
      (\<lambda>(rule1, rule2). fst (reg_rules_intersect is_valid rule1 rule2) = 0)"
    by (simp add: fun_eq_iff succeeds_def)
  ultimately show ?thesis
    by (simp add: survivors_def)
qed

lemma survivors_length:
  "length (survivors is_valid ps) =
     length (filter (\<lambda>(rule1, rule2). fst (reg_rules_intersect is_valid rule1 rule2) = 0) ps)"
  by (simp add: survivors_expand)

lemma wf_mk_domain: "length rules < 2 ^ 32 \<Longrightarrow> wf_regdomain (mk_domain a rules)"
  by (simp add: wf_regdomain_def mk_domain_def unat_of_nat)

lemma succeeds_valid: "succeeds is_valid p \<longleftrightarrow> is_valid (candidate is_valid p)"
  unfolding succeeds_def candidate_def reg_rules_intersect_code
  by (simp add: EINVAL_def)

text \<open>
  Claim C2. For two domains whose blocks hold the rules they announce, a domain
  returned by \<^verbatim>\<open>regdom_intersect\<close> has exactly as many rules, in its array and
  in its count, as there are pairs of a rule of \<open>rd1\<close> and a rule of \<open>rd2\<close>, by
  position, on which \<^verbatim>\<open>reg_rules_intersect\<close> returns \<open>0\<close>; that is at most the
  product of the two counts. When no pair succeeds the function fails at the
  test \<^verbatim>\<open>num_rules == 0\<close>. This holds whatever \<^verbatim>\<open>is_valid_reg_rule\<close> is.
\<close>

theorem intersect_domain_size:
  assumes "wf_regdomain rd1" "wf_regdomain rd2"
  shows "(\<forall>rd. regdom_intersect is_valid mem (Some rd1) (Some rd2) = Inr rd \<longrightarrow>
            length (reg_rules rd) =
              length (filter (\<lambda>(rule1, rule2). fst (reg_rules_intersect is_valid rule1 rule2) = 0)
                        (List.product (reg_rules rd1) (reg_rules rd2))) \<and>
            unat (n_reg_rules rd) = length (reg_rules rd) \<and>
            unat (n_reg_rules rd) \<le> unat (n_reg_rules rd1) * unat (n_reg_rules rd2)) \<and>
         (length (filter (\<lambda>(rule1, rule2). fst (reg_rules_intersect is_valid rule1 rule2) = 0)
                    (List.product (reg_rules rd1) (reg_rules rd2))) = 0 \<longrightarrow>
            regdom_intersect is_valid mem (Some rd1) (Some rd2) = Inl Num_rules_zero)"
proof (intro conjI allI impI)
  let ?ps = "List.product (reg_rules rd1) (reg_rules rd2)"
  let ?ok = "\<lambda>(rule1, rule2). fst (reg_rules_intersect is_valid rule1 rule2) = 0"
  fix rd
  assume ok: "regdom_intersect is_valid mem (Some rd1) (Some rd2) = Inr rd"
  show len: "length (reg_rules rd) = length (filter ?ok ?ps)"
    using regdom_intersect_Inr(1) [OF ok assms] by (simp add: survivors_length)
  show n: "unat (n_reg_rules rd) = length (reg_rules rd)"
    by (rule regdom_intersect_Inr(2) [OF ok assms])
  have "length (filter ?ok ?ps) \<le> length ?ps"
    by (rule length_filter_le)
  also have "\<dots> = unat (n_reg_rules rd1) * unat (n_reg_rules rd2)"
    using assms by (simp add: wf_regdomain_def)
  finally show "unat (n_reg_rules rd) \<le> unat (n_reg_rules rd1) * unat (n_reg_rules rd2)"
    using n len by simp
next
  let ?ps = "List.product (reg_rules rd1) (reg_rules rd2)"
  assume "length (filter (\<lambda>(rule1, rule2). fst (reg_rules_intersect is_valid rule1 rule2) = 0) ?ps) = 0"
  then have "length (survivors is_valid ?ps) = 0"
    by (simp add: survivors_length)
  then show "regdom_intersect is_valid mem (Some rd1) (Some rd2) = Inl Num_rules_zero"
    unfolding regdom_intersect_eq [OF assms] Let_def by simp
qed

theorem intersect_domain_size_witness:
  "regdom_intersect range_check True
     (Some (mk_domain ''US'' [mk_rule 5150 5250 80 6 23 0, mk_rule 2400 2483 40 6 20 1]))
     (Some (mk_domain ''DE'' [mk_rule 5725 5850 80 3 17 2, mk_rule 2400 2450 20 3 17 2]))
     = Inr (mk_domain ''99'' [mk_rule 2400 2450 20 3 17 3]) \<and>
   unat (n_reg_rules (mk_domain ''99'' [mk_rule 2400 2450 20 3 17 3])) = 1 \<and>
   regdom_intersect range_check True
     (Some (mk_domain ''US'' [mk_rule 5150 5250 80 6 23 0]))
     (Some (mk_domain ''DE'' [mk_rule 5725 5850 80 3 17 2]))
     = Inl Num_rules_zero"
proof -
  let ?rd1 = "mk_domain ''US'' [mk_rule 5150 5250 80 6 23 0, mk_rule 2400 2483 40 6 20 1]"
  let ?rd2 = "mk_domain ''DE'' [mk_rule 5725 5850 80 3 17 2, mk_rule 2400 2450 20 3 17 2]"
  let ?rd = "mk_domain ''99'' [mk_rule 2400 2450 20 3 17 3]"
  let ?rd3 = "mk_domain ''US'' [mk_rule 5150 5250 80 6 23 0]"
  let ?rd4 = "mk_domain ''DE'' [mk_rule 5725 5850 80 3 17 2]"
  have wf: "wf_regdomain ?rd1" "wf_regdomain ?rd2" "wf_regdomain ?rd3" "wf_regdomain ?rd4"
    by (simp_all add: wf_mk_domain)
  have run: "regdom_intersect range_check True (Some ?rd1) (Some ?rd2) = Inr ?rd"
    by code_simp
  have none: "length (filter (\<lambda>(rule1, rule2). fst (reg_rules_intersect range_check rule1 rule2) = 0)
                    (List.product (reg_rules ?rd3) (reg_rules ?rd4))) = 0"
    by code_simp
  from intersect_domain_size [OF wf(1,2), of range_check True] run
  have "unat (n_reg_rules ?rd) = length (reg_rules ?rd)"
    by blast
  moreover from intersect_domain_size [OF wf(3,4), of range_check True] none
  have "regdom_intersect range_check True (Some ?rd3) (Some ?rd4) = Inl Num_rules_zero"
    by blast
  ultimately show ?thesis
    using run by (simp add: mk_domain_def)
qed

text \<open>
  With the validity check of the specification, two rules whose ranges do not
  overlap (the smaller end lies below the larger start) make
  \<^verbatim>\<open>reg_rules_intersect\<close> return \<open>- EINVAL\<close>, and the counting pass counts the
  succeeding pairs among the others. If \<^verbatim>\<open>regdom_intersect\<close> returns a domain,
  its rules are the candidates of the succeeding pairs of the cross product
  with that pair left out.
\<close>

lemma nonoverlap_excluded:
  assumes "wf_regdomain rd1" "wf_regdomain rd2"
    and "rule1 \<in> set (reg_rules rd1)" "rule2 \<in> set (reg_rules rd2)"
    and "min (end_freq_khz (freq_range rule1)) (end_freq_khz (freq_range rule2)) <
         max (start_freq_khz (freq_range rule1)) (start_freq_khz (freq_range rule2))"
  shows "fst (reg_rules_intersect (is_valid_reg_rule ext) rule1 rule2) = - EINVAL \<and>
         count_rules (is_valid_reg_rule ext) rd1 rd2 =
           of_nat (length
             (filter (\<lambda>(r1, r2). fst (reg_rules_intersect (is_valid_reg_rule ext) r1 r2) = 0)
                (filter (\<lambda>p. p \<noteq> (rule1, rule2))
                   (List.product (reg_rules rd1) (reg_rules rd2))))) \<and>
         (\<forall>rd. regdom_intersect (is_valid_reg_rule ext) mem (Some rd1) (Some rd2) = Inr rd \<longrightarrow>
            reg_rules rd =
              map (\<lambda>(r1, r2). snd (reg_rules_intersect (is_valid_reg_rule ext) r1 r2))
                (filter (\<lambda>(r1, r2). fst (reg_rules_intersect (is_valid_reg_rule ext) r1 r2) = 0)
                   (filter (\<lambda>p. p \<noteq> (rule1, rule2))
                      (List.product (reg_rules rd1) (reg_rules rd2)))))"
proof (intro conjI allI impI)
  let ?V = "is_valid_reg_rule ext"
  have st: "start_freq_khz (freq_range (snd (reg_rules_intersect ?V rule1 rule2))) =
      max (start_freq_khz (freq_range rule1)) (start_freq_khz (freq_range rule2))"
    and en: "end_freq_khz (freq_range (snd (reg_rules_intersect ?V rule1 rule2))) =
      min (end_freq_khz (freq_range rule1)) (end_freq_khz (freq_range rule2))"
    by (simp_all add: reg_rules_intersect_fields)
  have "\<not> ?V (snd (reg_rules_intersect ?V rule1 rule2))"
  proof
    assume "?V (snd (reg_rules_intersect ?V rule1 rule2))"
    then have "start_freq_khz (freq_range (snd (reg_rules_intersect ?V rule1 rule2))) \<le>
        end_freq_khz (freq_range (snd (reg_rules_intersect ?V rule1 rule2)))"
      by (simp add: is_valid_reg_rule_def Let_def)
    then have "max (start_freq_khz (freq_range rule1)) (start_freq_khz (freq_range rule2)) \<le>
        min (end_freq_khz (freq_range rule1)) (end_freq_khz (freq_range rule2))"
      unfolding st en .
    with assms(5) show False
      by (meson leD)
  qed
  then show code: "fst (reg_rules_intersect ?V rule1 rule2) = - EINVAL"
    unfolding reg_rules_intersect_code by simp
  then have fails: "\<not> succeeds ?V (rule1, rule2)"
    by (simp add: succeeds_def EINVAL_def)
  have "filter (succeeds ?V) (filter (\<lambda>p. p \<noteq> (rule1, rule2)) ps) = filter (succeeds ?V) ps" for ps
    using fails by (induction ps) auto
  then have others: "survivors ?V (filter (\<lambda>p. p \<noteq> (rule1, rule2)) ps) = survivors ?V ps" for ps
    by (simp add: survivors_def)
  have "count_rules ?V rd1 rd2 =
      of_nat (length (survivors ?V (filter (\<lambda>p. p \<noteq> (rule1, rule2))
        (List.product (reg_rules rd1) (reg_rules rd2)))))"
    unfolding others by (rule count_rules_eq [OF assms(1,2)])
  then show "count_rules ?V rd1 rd2 =
      of_nat (length
        (filter (\<lambda>(r1, r2). fst (reg_rules_intersect ?V r1 r2) = 0)
           (filter (\<lambda>p. p \<noteq> (rule1, rule2))
              (List.product (reg_rules rd1) (reg_rules rd2)))))"
    unfolding survivors_length .
  fix rd
  assume ok: "regdom_intersect ?V mem (Some rd1) (Some rd2) = Inr rd"
  from others have "reg_rules rd =
      survivors ?V (filter (\<lambda>p. p \<noteq> (rule1, rule2))
        (List.product (reg_rules rd1) (reg_rules rd2)))"
    using regdom_intersect_Inr(1) [OF ok assms(1,2)] by simp
  then show "reg_rules rd =
      map (\<lambda>(r1, r2). snd (reg_rules_intersect ?V r1 r2))
        (filter (\<lambda>(r1, r2). fst (reg_rules_intersect ?V r1 r2) = 0)
           (filter (\<lambda>p. p \<noteq> (rule1, rule2)) (List.product (reg_rules rd1) (reg_rules rd2))))"
    unfolding survivors_expand .
qed

text \<open>
  Claim C6. A domain returned by \<^verbatim>\<open>regdom_intersect\<close> has the country code
  \<^verbatim>\<open>"99"\<close>; its rules are, in the order of the loops, the candidates of the
  pairs on which \<^verbatim>\<open>reg_rules_intersect\<close> returned \<open>0\<close>, and every one of them
  passes the validity check. A rejected candidate that the filling pass stored
  in a slot has been overwritten by then. This holds whatever
  \<^verbatim>\<open>is_valid_reg_rule\<close> is.
\<close>

theorem intersect_domain_result:
  assumes "wf_regdomain rd1" "wf_regdomain rd2"
    and "regdom_intersect is_valid mem (Some rd1) (Some rd2) = Inr rd"
  shows "alpha2 rd = ''99'' \<and>
         reg_rules rd =
           map (\<lambda>(rule1, rule2). snd (reg_rules_intersect is_valid rule1 rule2))
             (filter (\<lambda>(rule1, rule2). fst (reg_rules_intersect is_valid rule1 rule2) = 0)
                (List.product (reg_rules rd1) (reg_rules rd2))) \<and>
         (\<forall>r \<in> set (reg_rules rd). is_valid r)"
proof (intro conjI ballI)
  note res = regdom_intersect_Inr [OF assms(3) assms(1,2)]
  show "alpha2 rd = ''99''"
    by (rule res(3))
  show "reg_rules rd =
      map (\<lambda>(rule1, rule2). snd (reg_rules_intersect is_valid rule1 rule2))
        (filter (\<lambda>(rule1, rule2). fst (reg_rules_intersect is_valid rule1 rule2) = 0)
           (List.product (reg_rules rd1) (reg_rules rd2)))"
    using res(1) by (simp add: survivors_expand)
  fix r
  assume "r \<in> set (reg_rules rd)"
  then obtain p where "r = candidate is_valid p" "succeeds is_valid p"
    unfolding res(1) survivors_def by auto
  then show "is_valid r"
    by (simp add: succeeds_valid)
qed

theorem intersect_domain_result_witness:
  "regdom_intersect range_check True
     (Some (mk_domain ''US'' [mk_rule 2400 2483 40 6 20 1, mk_rule 5150 5350 80 6 23 0]))
     (Some (mk_domain ''JP'' [mk_rule 2400 2497 20 3 17 2, mk_rule 5250 5350 40 3 20 8]))
     = Inr (mk_domain ''99'' [mk_rule 2400 2483 20 3 17 3, mk_rule 5250 5350 40 3 20 8]) \<and>
   alpha2 (mk_domain ''99'' [mk_rule 2400 2483 20 3 17 3, mk_rule 5250 5350 40 3 20 8]) = ''99'' \<and>
   range_check (mk_rule 2400 2483 20 3 17 3) \<and> range_check (mk_rule 5250 5350 40 3 20 8)"
proof -
  let ?rd1 = "mk_domain ''US'' [mk_rule 2400 2483 40 6 20 1, mk_rule 5150 5350 80 6 23 0]"
  let ?rd2 = "mk_domain ''JP'' [mk_rule 2400 2497 20 3 17 2, mk_rule 5250 5350 40 3 20 8]"
  let ?rd = "mk_domain ''99'' [mk_rule 2400 2483 20 3 17 3, mk_rule 5250 5350 40 3 20 8]"
  have wf: "wf_regdomain ?rd1" "wf_regdomain ?rd2"
    by (simp_all add: wf_mk_domain)
  have run: "regdom_intersect range_check True (Some ?rd1) (Some ?rd2) = Inr ?rd"
    by code_simp
  from intersect_domain_result [OF wf run] run show ?thesis
    by (simp add: mk_domain_def)
qed

text \<open>
  The filling pass stores every candidate at \<^verbatim>\<open>rule_idx\<close> before it looks at
  the return value, and the block has room for the counted rules only. When
  some pair succeeds and the last pair of the loops does not, the candidate of
  the last pair is stored at index \<^verbatim>\<open>num_rules\<close>, one rule past the end of the
  block.
\<close>

lemma regdom_intersect_overflow:
  assumes "wf_regdomain rd1" "wf_regdomain rd2"
    and "survivors is_valid (List.product (reg_rules rd1) (reg_rules rd2)) \<noteq> []"
    and "length (List.product (reg_rules rd1) (reg_rules rd2)) < 2 ^ 32"
    and "\<not> succeeds is_valid (last (List.product (reg_rules rd1) (reg_rules rd2)))"
  shows "regdom_intersect is_valid True (Some rd1) (Some rd2) = Inl Heap_overflow"
proof -
  let ?sv = "survivors is_valid (List.product (reg_rules rd1) (reg_rules rd2))"
  have "length ?sv \<le> length (List.product (reg_rules rd1) (reg_rules rd2))"
    unfolding survivors_def length_map by (rule length_filter_le)
  then have "length ?sv < 2 ^ 32"
    using assms(4) by simp
  then have "unat (of_nat (length ?sv) :: u32) = length ?sv"
    by (simp add: unat_of_nat)
  then have "(of_nat (length ?sv) :: u32) \<noteq> 0"
    using assms(3) by auto
  then show ?thesis
    unfolding regdom_intersect_eq [OF assms(1,2)] Let_def using assms(5) by simp
qed

lemma succeeds_range:
  assumes "succeeds (is_valid_reg_rule ext) (x, y)"
  shows "max (start_freq_khz (freq_range x)) (start_freq_khz (freq_range y)) \<le>
         min (end_freq_khz (freq_range x)) (end_freq_khz (freq_range y))"
  using assms unfolding succeeds_valid is_valid_reg_rule_def Let_def
  by (simp add: candidate_def reg_rules_intersect_fields)

lemma product_eq_Nil: "List.product xs ys = [] \<longleftrightarrow> xs = [] \<or> ys = []"
  by (induction xs) auto

lemma last_product:
  assumes "xs \<noteq> []" "ys \<noteq> []"
  shows "last (List.product xs ys) = (last xs, last ys)"
  using assms
proof (induction xs)
  case Nil
  then show ?case by simp
next
  case (Cons x xs)
  show ?case
  proof (cases "xs = []")
    case True
    then show ?thesis using Cons.prems(2) by (simp add: last_map)
  next
    case False
    then have "List.product xs ys \<noteq> []"
      using Cons.prems(2) by (simp add: product_eq_Nil)
    then show ?thesis
      using Cons.IH [OF False Cons.prems(2)] False by (simp add: last_append)
  qed
qed

text \<open>
  When the last rule of \<open>rd1\<close> and the last rule of \<open>rd2\<close> do not overlap,
  \<^verbatim>\<open>regdom_intersect\<close> returns no domain, whatever the other pairs are.
\<close>

lemma nonoverlap_last_never_returns:
  assumes wf: "wf_regdomain rd1" "wf_regdomain rd2"
    and ne: "reg_rules rd1 \<noteq> []" "reg_rules rd2 \<noteq> []"
    and apart: "min (end_freq_khz (freq_range (last (reg_rules rd1))))
                    (end_freq_khz (freq_range (last (reg_rules rd2)))) <
                max (start_freq_khz (freq_range (last (reg_rules rd1))))
                    (start_freq_khz (freq_range (last (reg_rules rd2))))"
  shows "regdom_intersect (is_valid_reg_rule ext) mem (Some rd1) (Some rd2) \<noteq> Inr rd"
proof
  assume "regdom_intersect (is_valid_reg_rule ext) mem (Some rd1) (Some rd2) = Inr rd"
  from regdom_intersect_Inr(4) [OF this wf]
  have "succeeds (is_valid_reg_rule ext) (last (reg_rules rd1), last (reg_rules rd2))"
    unfolding last_product [OF ne] .
  from succeeds_range [OF this] apart show False
    by (meson leD)
qed

text \<open>
  Claim C4. The claim says that a pair of rules that do not overlap is left out
  of the result, without an error. \<^verbatim>\<open>reg_rules_intersect\<close> returns \<open>- EINVAL\<close>
  for such a pair and the counting pass does not count it, but the filling
  pass stores the candidate at \<^verbatim>\<open>rule_idx\<close> before it looks at the return
  value. For the domains \<open>US\<close> with the rule 2400-2483 and \<open>DE\<close> with the rules
  2400-2450 and 5725-5850, the first pair succeeds and the second, last pair
  does not overlap: one rule is counted, the block has one slot, and the
  rejected candidate is stored into slot 1, behind the block. The call does not
  return the domain made of the other pair, and \<^verbatim>\<open>main\<close> does not reach
  \<^verbatim>\<open>print_regdom\<close>. With the two rules of \<open>DE\<close> in the other order the pair is
  left out as the claim says.
\<close>

theorem nonoverlap_last_pair_stored_outside:
  "min (end_freq_khz (freq_range (mk_rule 2400 2483 40 6 20 1)))
       (end_freq_khz (freq_range (mk_rule 5725 5850 80 3 17 2))) <
   max (start_freq_khz (freq_range (mk_rule 2400 2483 40 6 20 1)))
       (start_freq_khz (freq_range (mk_rule 5725 5850 80 3 17 2))) \<and>
   fst (reg_rules_intersect range_check
          (mk_rule 2400 2483 40 6 20 1) (mk_rule 5725 5850 80 3 17 2)) = - EINVAL \<and>
   count_rules range_check
     (mk_domain ''US'' [mk_rule 2400 2483 40 6 20 1])
     (mk_domain ''DE'' [mk_rule 2400 2450 20 3 17 2, mk_rule 5725 5850 80 3 17 2]) = 1 \<and>
   fill_rules range_check
     (mk_domain ''US'' [mk_rule 2400 2483 40 6 20 1])
     (mk_domain ''DE'' [mk_rule 2400 2450 20 3 17 2, mk_rule 5725 5850 80 3 17 2])
     (replicate 1 zero_rule) = Inl Heap_overflow \<and>
   regdom_intersect range_check True
     (Some (mk_domain ''US'' [mk_rule 2400 2483 40 6 20 1]))
     (Some (mk_domain ''DE'' [mk_rule 2400 2450 20 3 17 2, mk_rule 5725 5850 80 3 17 2]))
     = Inl Heap_overflow \<and>
   (case crda_main range_check True
           [mk_country ''US'' [mk_rule 2400 2483 40 6 20 1],
            mk_country ''DE'' [mk_rule 2400 2450 20 3 17 2, mk_rule 5725 5850 80 3 17 2]] of
      Inl Overflow \<Rightarrow> True
    | _ \<Rightarrow> False) \<and>
   regdom_intersect range_check True
     (Some (mk_domain ''US'' [mk_rule 2400 2483 40 6 20 1]))
     (Some (mk_domain ''DE'' [mk_rule 5725 5850 80 3 17 2, mk_rule 2400 2450 20 3 17 2]))
     = Inr (mk_domain ''99'' [mk_rule 2400 2450 20 3 17 3])"
  by code_simp

subsection \<open>What a call reads and writes\<close>

declare fill_loop_y.simps [simp del] fill_loop_x.simps [simp del]











subsection \<open>Intersecting three domains\<close>







lemma regroups_eq:
  "regroups is_valid a b c \<longleftrightarrow>
     (succeeds is_valid (a, b) \<and> succeeds is_valid (candidate is_valid (a, b), c)) =
     (succeeds is_valid (b, c) \<and> succeeds is_valid (a, candidate is_valid (b, c)))"
  by (simp add: regroups_def succeeds_def candidate_def)




lemma candidate_fields:
  "start_freq_khz (freq_range (candidate is_valid (x, y))) =
     max (start_freq_khz (freq_range x)) (start_freq_khz (freq_range y))"
  "end_freq_khz (freq_range (candidate is_valid (x, y))) =
     min (end_freq_khz (freq_range x)) (end_freq_khz (freq_range y))"
  "max_bandwidth_khz (freq_range (candidate is_valid (x, y))) =
     min (min (max_bandwidth_khz (freq_range x)) (max_bandwidth_khz (freq_range y)))
       (min (end_freq_khz (freq_range x)) (end_freq_khz (freq_range y)) -
        max (start_freq_khz (freq_range x)) (start_freq_khz (freq_range y)))"
  "max_antenna_gain (power_rule (candidate is_valid (x, y))) =
     min (max_antenna_gain (power_rule x)) (max_antenna_gain (power_rule y))"
  "max_eirp (power_rule (candidate is_valid (x, y))) =
     min (max_eirp (power_rule x)) (max_eirp (power_rule y))"
  "flags (candidate is_valid (x, y)) = flags x OR flags y"
  by (simp_all add: candidate_def reg_rules_intersect_fields)



lemma range_check_succeeds:
  "succeeds (is_valid_reg_rule (\<lambda>_. True)) (x, y) \<longleftrightarrow>
     max (start_freq_khz (freq_range x)) (start_freq_khz (freq_range y)) \<le>
     min (end_freq_khz (freq_range x)) (end_freq_khz (freq_range y))"
  unfolding succeeds_valid is_valid_reg_rule_def Let_def candidate_fields
  by simp



text \<open>The range and bandwidth check alone accepts every triple of rules in both groupings or in none.\<close>

lemma range_check_regroups:
  fixes a b c :: "'p::linorder ieee80211_reg_rule"
  shows "regroups (is_valid_reg_rule (\<lambda>_. True)) a b c"
proof -
  let ?V = "is_valid_reg_rule (\<lambda>_. True) :: 'p ieee80211_reg_rule \<Rightarrow> bool"
  define s1 s2 s3 where "s1 = start_freq_khz (freq_range a)"
    and "s2 = start_freq_khz (freq_range b)" and "s3 = start_freq_khz (freq_range c)"
  define e1 e2 e3 where "e1 = end_freq_khz (freq_range a)"
    and "e2 = end_freq_khz (freq_range b)" and "e3 = end_freq_khz (freq_range c)"
  have ab_ok: "succeeds ?V (a, b) \<longleftrightarrow> max s1 s2 \<le> min e1 e2"
    unfolding range_check_succeeds s1_def s2_def e1_def e2_def ..
  have bc_ok: "succeeds ?V (b, c) \<longleftrightarrow> max s2 s3 \<le> min e2 e3"
    unfolding range_check_succeeds s2_def s3_def e2_def e3_def ..
  have abc_ok: "succeeds ?V (candidate ?V (a, b), c) \<longleftrightarrow> max (max s1 s2) s3 \<le> min (min e1 e2) e3"
    unfolding range_check_succeeds candidate_fields s1_def s2_def s3_def e1_def e2_def e3_def ..
  have a_bc_ok: "succeeds ?V (a, candidate ?V (b, c)) \<longleftrightarrow> max s1 (max s2 s3) \<le> min e1 (min e2 e3)"
    unfolding range_check_succeeds candidate_fields s1_def s2_def s3_def e1_def e2_def e3_def ..
  show ?thesis
    unfolding regroups_eq ab_ok bc_ok abc_ok a_bc_ok by auto
qed

text \<open>
  With the external check that rejects a range starting at 0 kHz, three rules
  regroup as soon as the middle one starts above 0; so the rules of any three
  domains regroup when those of the second domain pass the check themselves.
\<close>

lemma max_word_eq_0:
  fixes x y :: u32
  shows "max x y = 0 \<longleftrightarrow> x = 0 \<and> y = 0"
  by (metis max.cobounded1 max.cobounded2 max.idem word_le_0_iff)

lemma nonzero_start_succeeds:
  "succeeds (is_valid_reg_rule nonzero_start) (x, y) \<longleftrightarrow>
     succeeds (is_valid_reg_rule (\<lambda>_. True)) (x, y) \<and>
     \<not> (start_freq_khz (freq_range x) = 0 \<and> start_freq_khz (freq_range y) = 0)"
  unfolding succeeds_valid is_valid_reg_rule_def Let_def nonzero_start_def candidate_fields
  by (auto simp: max_word_eq_0)

lemma nonzero_start_regroups:
  fixes a b c :: "u32 ieee80211_reg_rule"
  assumes "start_freq_khz (freq_range b) \<noteq> 0"
  shows "regroups (is_valid_reg_rule nonzero_start) a b c"
proof -
  have "candidate (is_valid_reg_rule nonzero_start) p = candidate (is_valid_reg_rule (\<lambda>_. True)) p"
    for p :: "u32 ieee80211_reg_rule \<times> u32 ieee80211_reg_rule"
    by (simp add: candidate_def reg_rules_intersect_fields)
  then show ?thesis
    using range_check_regroups [of a b c] assms
    unfolding regroups_eq nonzero_start_succeeds candidate_fields
    by (simp add: max_word_eq_0)
qed
















lemma flags_reduction_stops:
  "map_sum (\<lambda>_. ()) (\<lambda>s. (st_r s, st_log s))
     (crda_main (is_valid_reg_rule flags_not_3) True
        [mk_country ''AA'' [mk_rule 2400 2483 40 6 20 1],
         mk_country ''BB'' [mk_rule 2400 2483 40 6 20 2],
         mk_country ''CC'' [mk_rule 2400 2483 40 6 20 4]]) = Inr (- ENOMEM, [Free 1, Free 0])"
  by code_simp



subsection \<open>Claims about the reduction loop\<close>

lemmas main_defs = crda_main_def loop_body_def release_rd_def malloc_block_def free_block_def
  free_if_set_def out_def init_state_def deref_def is_world_regdom_def

lemma run_loop_append:
  "run_loop is_valid mem (xs @ ys) s =
     (case run_loop is_valid mem xs s of
        Inl e \<Rightarrow> Inl e
      | Inr s' \<Rightarrow> run_loop is_valid mem ys s')"
  by (induction xs arbitrary: s) (simp_all split: sum.splits)

lemma run_loop_world:
  assumes "\<forall>c \<in> set cs. is_world_regdom (country_alpha2 c)"
  shows "run_loop is_valid mem cs s = Inr s"
  using assms by (induction cs) (simp_all add: loop_body_def)

lemma single_domain_general:
  assumes one: "filter (\<lambda>c. \<not> is_world_regdom (country_alpha2 c)) countries = [c]"
    and rd: "country_rd c = Some d"
  shows "map_sum (\<lambda>_. ()) (\<lambda>s. (st_r s, st_log s)) (crda_main is_valid mem countries) =
         Inr (0, [Print_regdom None None, Free 0])"
proof -
  from one obtain us vs where
    cs: "countries = us @ c # vs"
    and us: "\<forall>u \<in> set us. is_world_regdom (country_alpha2 u)"
    and c: "\<not> is_world_regdom (country_alpha2 c)"
    and rest: "filter (\<lambda>c. \<not> is_world_regdom (country_alpha2 c)) vs = []"
    unfolding filter_eq_Cons_iff by auto
  have vs: "\<forall>v \<in> set vs. is_world_regdom (country_alpha2 v)"
    using rest unfolding filter_empty_conv by simp
  have body: "loop_body is_valid mem c init_state =
      Inr (init_state \<lparr> st_heap := [0 \<mapsto> d], st_next := 1, st_prev_world := Some 0 \<rparr>)"
    using c rd by (simp add: main_defs)
  have "run_loop is_valid mem countries init_state =
      Inr (init_state \<lparr> st_heap := [0 \<mapsto> d], st_next := 1, st_prev_world := Some 0 \<rparr>)"
    unfolding cs run_loop_append run_loop_world [OF us]
    by (simp add: body run_loop_world [OF vs])
  then show ?thesis
    unfolding cs
    by (simp add: crda_main_def out_def free_if_set_def free_block_def init_state_def deref_def)
qed

text \<open>
  With two countries nothing is lost: the renderer receives the intersection,
  and the three blocks are freed once each.
\<close>

lemma two_domains_released:
  assumes "\<not> is_world_regdom a1" "\<not> is_world_regdom a2"
    and "regdom_intersect is_valid mem (Some d1) (Some d2) = Inr w"
  shows "map_sum (\<lambda>_. ()) (\<lambda>s. (st_r s, st_log s, dom (st_heap s)))
     (crda_main is_valid mem
        [\<lparr> country_alpha2 = a1, country_rd = Some d1 \<rparr>,
         \<lparr> country_alpha2 = a2, country_rd = Some d2 \<rparr>]) =
   Inr (0, [Print_regdom (Some 2) (Some w), Free 2, Free 1, Free 0], {})"
  using assms
  by (simp add: crda_main_def loop_body_def release_rd_def malloc_block_def free_block_def
      free_if_set_def out_def init_state_def deref_def)

text \<open>
  With three countries that intersect, the renderer receives the intersection of
  the first two domains intersected with the third, and the block of the first
  domain is still allocated at the \<^verbatim>\<open>return\<close>.
\<close>

lemma three_domains_general:
  assumes "\<not> is_world_regdom a1" "\<not> is_world_regdom a2" "\<not> is_world_regdom a3"
    and "regdom_intersect is_valid mem (Some d1) (Some d2) = Inr w1"
    and "regdom_intersect is_valid mem (Some w1) (Some d3) = Inr w2"
  shows "map_sum (\<lambda>_. ()) (\<lambda>s. (st_r s, st_log s, st_heap s 0, dom (st_heap s)))
     (crda_main is_valid mem
        [\<lparr> country_alpha2 = a1, country_rd = Some d1 \<rparr>,
         \<lparr> country_alpha2 = a2, country_rd = Some d2 \<rparr>,
         \<lparr> country_alpha2 = a3, country_rd = Some d3 \<rparr>]) =
   Inr (0, [Free 1, Print_regdom (Some 4) (Some w2), Free 4, Free 3, Free 2], Some d1, {0})"
  using assms
  by (simp add: crda_main_def loop_body_def release_rd_def malloc_block_def free_block_def
      free_if_set_def out_def init_state_def deref_def)

text \<open>
  Claim C7. The claim says that for a single domain the renderer receives that
  domain. In \<^verbatim>\<open>main\<close> the first domain is kept in \<^verbatim>\<open>prev_world\<close>, and
  \<^verbatim>\<open>world\<close>, the variable passed to \<^verbatim>\<open>print_regdom\<close>, is assigned only by an
  intersection. For one country, whatever its domain, the run returns \<open>0\<close>
  after calling \<^verbatim>\<open>print_regdom(NULL)\<close> and freeing the domain.
\<close>

theorem single_domain_prints_null:
  "map_sum (\<lambda>_. ()) (\<lambda>s. (st_r s, st_log s))
     (crda_main is_valid mem [\<lparr> country_alpha2 = ''US'', country_rd = Some d \<rparr>]) =
   Inr (0, [Print_regdom None None, Free 0])"
  by (simp add: main_defs)

text \<open>
  Claim C9. The claim says that every block is released exactly once. At the
  head of the third turn of the loop, \<^verbatim>\<open>prev_world = world\<close> overwrites the only
  pointer to the first country's domain, which is never passed to \<^verbatim>\<open>free\<close>.
  For the three countries below the run frees the blocks 1 to 4 once each and
  returns with block 0, the first domain, still allocated.
\<close>

theorem three_domains_leak:
  "map_sum (\<lambda>_. ()) (\<lambda>s. (st_r s, st_log s, st_heap s 0))
     (crda_main range_check True
        [mk_country ''US'' [mk_rule 2400 2483 40 6 20 1],
         mk_country ''DE'' [mk_rule 2400 2450 20 3 17 2],
         mk_country ''JP'' [mk_rule 2412 2497 20 3 16 4]]) =
   Inr (0, [Free 1,
            Print_regdom (Some 4) (Some (mk_domain ''99'' [mk_rule 2412 2450 20 3 16 7])),
            Free 4, Free 3, Free 2],
        Some (mk_domain ''US'' [mk_rule 2400 2483 40 6 20 1]))"
  by code_simp

end
